theory Spec2Isabelle
  imports Complex_Main "HOL-Library.Char_ord" "HOL-Library.List_Lexorder" "HOL-Library.AList"
    "HOL-Library.Sublist"
begin

section \<open>Strings and paths\<close>

text \<open>
  The exceptions the pipeline can raise.  \<open>OSError\<close> stands for every failure of a
  file-system call (a missing directory, a file where a directory is expected);
  \<open>KeyError\<close> for a failed table lookup.
\<close>

datatype error = ValueError | IndexError | AssertionError | ZeroDivisionError | OSError | KeyError

text \<open>Python's \<open>s.split(sep)\<close> for a one-character separator: never empty.\<close>

fun split_on :: "char \<Rightarrow> string \<Rightarrow> string list" where
  "split_on c [] = [[]]"
| "split_on c (x # xs) =
     (if x = c then [] # split_on c xs
      else (case split_on c xs of [] \<Rightarrow> [[x]] | r # rs \<Rightarrow> (x # r) # rs))"

text \<open>Python list indexing \<open>xs[i]\<close>: a negative index counts from the end.\<close>

definition py_get :: "'a list \<Rightarrow> int \<Rightarrow> error + 'a" where
  "py_get xs i =
     (if 0 \<le> i \<and> i < int (length xs) then Inr (xs ! nat i)
      else if i < 0 \<and> - i \<le> int (length xs) then Inr (xs ! nat (int (length xs) + i))
      else Inl IndexError)"

text \<open>
  Lines 58 to 63 of \<open>video2frames\<close>: the frame directory of one video.  The path is
  split at the slashes; fewer than four components raise \<open>ValueError\<close>; the directory
  is \<open>sFrameDir\<close>, the third-to-last and second-to-last components and the file name
  up to its first dot, joined by slashes.
\<close>

definition frame_dir :: "string \<Rightarrow> string \<Rightarrow> error + string" where
  "frame_dir sFrameDir sVideoPath =
     (let li_sVideoPath = split_on CHR ''/'' sVideoPath in
      if length li_sVideoPath < 4 then Inl ValueError
      else
        (case py_get li_sVideoPath (- 1) of Inl e \<Rightarrow> Inl e | Inr sFile \<Rightarrow>
         (case py_get (split_on CHR ''.'' sFile) 0 of Inl e \<Rightarrow> Inl e | Inr sVideoName \<Rightarrow>
          (case py_get li_sVideoPath (- 3) of Inl e \<Rightarrow> Inl e | Inr sSplit \<Rightarrow>
           (case py_get li_sVideoPath (- 2) of Inl e \<Rightarrow> Inl e | Inr sLabel \<Rightarrow>
              Inr (sFrameDir @ ''/'' @ sSplit @ ''/'' @ sLabel @ ''/'' @ sVideoName))))))"


text \<open>Python's \<open>sep.join(xs)\<close>.\<close>

fun join_on :: "char \<Rightarrow> string list \<Rightarrow> string" where
  "join_on c [] = []"
| "join_on c [x] = x"
| "join_on c (x # y # ys) = x @ c # join_on c (y # ys)"

text \<open>\<open>os.path.join(a, b)\<close> of posixpath.\<close>

definition path_join :: "string \<Rightarrow> string \<Rightarrow> string" where
  "path_join a b =
     (if b \<noteq> [] \<and> hd b = CHR ''/'' then b
      else if a = [] \<or> last a = CHR ''/'' then a @ b
      else a @ ''/'' @ b)"

text \<open>
  \<open>os.path.dirname(p)\<close> of posixpath: the text up to the last slash, its trailing
  slashes stripped unless it consists of slashes only.
\<close>

definition dirname :: "string \<Rightarrow> string" where
  "dirname p =
     (let head = rev (dropWhile (\<lambda>x. x \<noteq> CHR ''/'') (rev p)) in
      if head \<noteq> [] \<and> \<not> list_all (\<lambda>x. x = CHR ''/'') head
      then rev (dropWhile (\<lambda>x. x = CHR ''/'') (rev head))
      else head)"

text \<open>Python's \<open>s.endswith(ext)\<close>.\<close>

definition ends_with :: "string \<Rightarrow> string \<Rightarrow> bool" where
  "ends_with s ext = (length ext \<le> length s \<and> drop (length s - length ext) s = ext)"

text \<open>
  The C format \<open>%03d\<close> that the transcoder applies to the frame number: the decimal
  digits, padded with zeros on the left to a width of at least three.
\<close>

definition digit_char :: "nat \<Rightarrow> char" where
  "digit_char d = ''0123456789'' ! d"

fun digits10 :: "nat \<Rightarrow> string" where
  "digits10 n = (if n < 10 then [digit_char n] else digits10 (n div 10) @ [digit_char (n mod 10)])"

definition fmt03d :: "nat \<Rightarrow> string" where
  "fmt03d i = (let ds = digits10 i in replicate (3 - length ds) CHR ''0'' @ ds)"


section \<open>Arrays\<close>

text \<open>
  A numpy array is its shape and its elements in row-major order.  \<open>reshape_rows n a\<close>
  is \<open>a.reshape(n, -1)\<close>: numpy raises \<open>ValueError\<close> when \<open>n\<close> is negative, when the
  size is not a multiple of \<open>n\<close>, and when \<open>n\<close> is zero (the free dimension is then
  undetermined or the size does not fit).
\<close>

record 'v ndarray =
  shape :: "nat list"
  flat :: "'v list"

definition reshape_rows :: "int \<Rightarrow> 'v ndarray \<Rightarrow> error + 'v ndarray" where
  "reshape_rows n a =
     (let sz = prod_list (shape a) in
      if n \<le> 0 then Inl ValueError
      else if sz mod nat n \<noteq> 0 then Inl ValueError
      else Inr (a\<lparr>shape := [nat n, sz div nat n]\<rparr>))"

section \<open>The file system\<close>

text \<open>
  The stages communicate through the file system only, so the state of the model is the
  file system: an association list from path strings to nodes, in the order in which a
  directory listing returns them.  A node is a directory, an image file (a frame), a
  saved array (a \<open>.npy\<close> file) or any other file (a video).  A path is its string: the
  model has no symbolic links and does not identify two spellings of one path.
\<close>

datatype ('i, 'v) node = Dir | Image 'i | Array "'v ndarray" | Data

type_synonym ('i, 'v) fs = "(string \<times> ('i, 'v) node) list"

text \<open>\<open>os.path.exists\<close>.\<close>

definition exists :: "('i, 'v) fs \<Rightarrow> string \<Rightarrow> bool" where
  "exists fs p = (map_of fs p \<noteq> None)"

text \<open>
  \<open>os.makedirs(p, exist_ok=True)\<close>: every missing ancestor of \<open>p\<close> and \<open>p\<close> itself are
  created, the shortest first; an ancestor that is a file, and the empty path, raise.
\<close>

definition ancestors :: "string \<Rightarrow> string list" where
  "ancestors p =
     (let cs = split_on CHR ''/'' p in
      map (\<lambda>k. join_on CHR ''/'' (take k cs))
        (filter (\<lambda>k. cs ! (k - 1) \<noteq> []) [1 ..< Suc (length cs)]))"

fun mkdirs :: "('i, 'v) fs \<Rightarrow> string list \<Rightarrow> error option \<times> ('i, 'v) fs" where
  "mkdirs fs [] = (None, fs)"
| "mkdirs fs (q # qs) =
     (case map_of fs q of
        None \<Rightarrow> mkdirs (fs @ [(q, Dir)]) qs
      | Some Dir \<Rightarrow> mkdirs fs qs
      | Some _ \<Rightarrow> (Some OSError, fs))"

definition makedirs :: "('i, 'v) fs \<Rightarrow> string \<Rightarrow> error option \<times> ('i, 'v) fs" where
  "makedirs fs p = (if p = [] then (Some OSError, fs) else mkdirs fs (ancestors p))"

text \<open>
  \<open>glob.glob(pat)\<close> for the patterns of this program: a directory, taken literally,
  followed by \<open>k\<close> components of the form \<open>*\<close> or \<open>*.ext\<close>.  A star matches a
  non-empty name that does not start with a dot.  The result lists each matching path
  once, in directory order.  Directory names with the special characters of \<open>glob\<close>
  (star, question mark, bracket) are outside the model.
\<close>

definition name_match :: "string \<Rightarrow> string \<Rightarrow> bool" where
  "name_match pat name =
     (case pat of
        [] \<Rightarrow> name = []
      | c # ext \<Rightarrow>
          if c = CHR ''*'' then name \<noteq> [] \<and> hd name \<noteq> CHR ''.'' \<and> ends_with name ext
          else name = pat)"

definition glob_match :: "nat \<Rightarrow> string \<Rightarrow> string \<Rightarrow> bool" where
  "glob_match k pat p =
     (let ps = split_on CHR ''/'' pat; cs = split_on CHR ''/'' p; m = length ps - k in
      length cs = length ps \<and> take m cs = take m ps \<and>
      list_all2 name_match (drop m ps) (drop m cs))"

definition glob :: "('i, 'v) fs \<Rightarrow> nat \<Rightarrow> string \<Rightarrow> string list" where
  "glob fs k pat = remdups (filter (glob_match k pat) (map fst fs))"

text \<open>
  \<open>os.chdir(dir)\<close> followed by \<open>glob.glob(pat)\<close> for a relative pattern: the matches
  below \<open>dir\<close>, as paths relative to it.
\<close>

definition glob_rel :: "('i, 'v) fs \<Rightarrow> string \<Rightarrow> nat \<Rightarrow> string \<Rightarrow> string list" where
  "glob_rel fs dir k pat = map (drop (length dir + 1)) (glob fs k (dir @ ''/'' @ pat))"

text \<open>
  Writing a file: a new path is appended to the listing, an existing file is replaced
  in place; nothing is written over a directory.
\<close>

definition write_file :: "('i, 'v) fs \<Rightarrow> string \<Rightarrow> ('i, 'v) node \<Rightarrow> ('i, 'v) fs" where
  "write_file fs p x = (case map_of fs p of Some Dir \<Rightarrow> fs | _ \<Rightarrow> AList.update p x fs)"


section \<open>Restriction to the first classes\<close>

text \<open>
  Lines 47 to 50 and 104 to 107: with \<open>nClasses\<close> given, the label of every path is its
  second-to-last component (\<open>IndexError\<close> for a path without a slash), the classes are
  \<open>sorted(labels.unique())[:nClasses]\<close>, and the paths whose label is one of them are
  kept in their order.  \<open>py_prefix n xs\<close> is the slice \<open>xs[:n]\<close>.
\<close>

fun labels_of :: "string list \<Rightarrow> error + string list" where
  "labels_of [] = Inr []"
| "labels_of (s # ss) =
     (case py_get (split_on CHR ''/'' s) (- 2) of
        Inl e \<Rightarrow> Inl e
      | Inr l \<Rightarrow> (case labels_of ss of Inl e \<Rightarrow> Inl e | Inr ls \<Rightarrow> Inr (l # ls)))"

definition py_prefix :: "int \<Rightarrow> 'a list \<Rightarrow> 'a list" where
  "py_prefix n xs = (if 0 \<le> n then take (nat n) xs else take (length xs - nat (- n)) xs)"

definition restrict_classes :: "int option \<Rightarrow> string list \<Rightarrow> error + string list" where
  "restrict_classes nClasses paths =
     (case nClasses of
        None \<Rightarrow> Inr paths
      | Some n \<Rightarrow>
          (case labels_of paths of
             Inl e \<Rightarrow> Inl e
           | Inr sLabel \<Rightarrow>
               (let liClasses = py_prefix n (sort (remdups sLabel)) in
                Inr (map fst (filter (\<lambda>(p, l). l \<in> set liClasses) (zip paths sLabel))))))"

section \<open>Stage 1: video2frames\<close>

text \<open>
  The two external tools are parameters.  \<open>mediainfo v\<close> is the duration of the video
  in milliseconds as \<open>int(check_output(...))\<close> returns it, or the exception of that
  line.  \<open>transcode v\<close> is the list of frames the transcoder decodes from \<open>v\<close> at the
  requested rate; the option \<open>-frames nFramesNorm\<close> keeps at most \<open>nFramesNorm\<close> of them
  and the output pattern \<open>frame-%03d.jpg\<close> numbers them from 1.  A frame directory
  with a percent sign in its name, which the transcoder would read as part of the
  pattern, is outside the model.
\<close>

definition frame_file :: "string \<Rightarrow> nat \<Rightarrow> string" where
  "frame_file sDir i = sDir @ ''/frame-'' @ fmt03d i @ ''.jpg''"

fun write_frames :: "('i, 'v) fs \<Rightarrow> string \<Rightarrow> nat \<Rightarrow> 'i list \<Rightarrow> ('i, 'v) fs" where
  "write_frames fs sDir i [] = fs"
| "write_frames fs sDir i (x # xs) =
     write_frames (write_file fs (frame_file sDir i) (Image x)) sDir (Suc i) xs"

definition ffmpeg ::
  "(string \<Rightarrow> 'i list) \<Rightarrow> ('i, 'v) fs \<Rightarrow> string \<Rightarrow> string \<Rightarrow> int \<Rightarrow> ('i, 'v) fs" where
  "ffmpeg transcode fs sVideoPath sDir nFramesNorm =
     write_frames fs sDir 1 (take (nat nFramesNorm) (transcode sVideoPath))"

text \<open>
  The body of the loop of \<open>video2frames\<close> (lines 57 to 81) for one video.  The result
  is the exception raised, if any, and the file system at that moment.  A duration of
  zero makes \<open>nFramesNorm / fVideoSec\<close> raise \<open>ZeroDivisionError\<close>.  The printed line
  has no effect on the state.
\<close>

definition video_step ::
  "(string \<Rightarrow> error + int) \<Rightarrow> (string \<Rightarrow> 'i list) \<Rightarrow> string \<Rightarrow> int \<Rightarrow>
   ('i, 'v) fs \<Rightarrow> string \<Rightarrow> error option \<times> ('i, 'v) fs" where
  "video_step mediainfo transcode sFrameDir nFramesNorm fs sVideoPath =
     (case frame_dir sFrameDir sVideoPath of
        Inl e \<Rightarrow> (Some e, fs)
      | Inr sDir \<Rightarrow>
          (case makedirs fs sDir of
             (Some e, fs1) \<Rightarrow> (Some e, fs1)
           | (None, fs1) \<Rightarrow>
               (case mediainfo sVideoPath of
                  Inl e \<Rightarrow> (Some e, fs1)
                | Inr nMillis \<Rightarrow>
                    if nMillis = 0 then (Some ZeroDivisionError, fs1)
                    else
                      (let fs2 = ffmpeg transcode fs1 sVideoPath sDir nFramesNorm;
                           nFrames = length (glob fs2 1 (sDir @ ''/*.jpg''))
                       in if int nFrames \<noteq> nFramesNorm then (Some ValueError, fs2)
                          else (None, fs2)))))"

fun video_loop ::
  "(string \<Rightarrow> error + int) \<Rightarrow> (string \<Rightarrow> 'i list) \<Rightarrow> string \<Rightarrow> int \<Rightarrow>
   ('i, 'v) fs \<Rightarrow> string list \<Rightarrow> error option \<times> ('i, 'v) fs" where
  "video_loop mediainfo transcode sFrameDir nFramesNorm fs [] = (None, fs)"
| "video_loop mediainfo transcode sFrameDir nFramesNorm fs (sVideoPath # rest) =
     (case video_step mediainfo transcode sFrameDir nFramesNorm fs sVideoPath of
        (Some e, fs1) \<Rightarrow> (Some e, fs1)
      | (None, fs1) \<Rightarrow> video_loop mediainfo transcode sFrameDir nFramesNorm fs1 rest)"

text \<open>
  \<open>video2frames\<close> (lines 35 to 87): the guard on the output directory, the listing of
  the videos, the restriction to the first classes, the loop.  The final count of
  line 84 is only printed.
\<close>

definition video2frames ::
  "(string \<Rightarrow> error + int) \<Rightarrow> (string \<Rightarrow> 'i list) \<Rightarrow> string \<Rightarrow> string \<Rightarrow> int \<Rightarrow>
   int option \<Rightarrow> ('i, 'v) fs \<Rightarrow> error option \<times> ('i, 'v) fs" where
  "video2frames mediainfo transcode sVideoDir sFrameDir nFramesNorm nClasses fs =
     (if exists fs sFrameDir then (Some ValueError, fs)
      else
        (case restrict_classes nClasses (glob fs 3 (sVideoDir @ ''/*/*/*.avi'')) of
           Inl e \<Rightarrow> (Some e, fs)
         | Inr dfVideos \<Rightarrow> video_loop mediainfo transcode sFrameDir nFramesNorm fs dfVideos))"

section \<open>Stage 2: frames2features\<close>

text \<open>
  \<open>load_img\<close> on each path in turn: the image stored there, \<open>OSError\<close> for a path
  that holds no image.
\<close>

fun load_frames :: "('i, 'v) fs \<Rightarrow> string list \<Rightarrow> error + 'i list" where
  "load_frames fs [] = Inr []"
| "load_frames fs (p # ps) =
     (case map_of fs p of
        Some (Image x) \<Rightarrow>
          (case load_frames fs ps of Inl e \<Rightarrow> Inl e | Inr xs \<Rightarrow> Inr (x # xs))
      | _ \<Rightarrow> Inl OSError)"

text \<open>
  \<open>np.save(p, a)\<close>: the directory of \<open>p\<close> must exist and \<open>p\<close> must not be a
  directory.
\<close>

definition np_save ::
  "('i, 'v) fs \<Rightarrow> string \<Rightarrow> 'v ndarray \<Rightarrow> error option \<times> ('i, 'v) fs" where
  "np_save fs p a =
     (if map_of fs p = Some Dir then (Some OSError, fs)
      else if dirname p \<noteq> [] \<and> map_of fs (dirname p) \<noteq> Some Dir then (Some OSError, fs)
      else (None, write_file fs p (Array a)))"

text \<open>
  The body of the loop of \<open>frames2features\<close> (lines 115 to 146) for one frame directory
  \<open>d\<close>, a path relative to \<open>sFrameDir\<close>.  The network is the parameter \<open>cnn\<close>: the
  array \<open>oCNN.keModel.predict(oCNN.preprocess_input(np.array(liFrames)))\<close> for the list
  of loaded frames, or the exception of these calls.
\<close>

definition feature_path :: "string \<Rightarrow> string \<Rightarrow> string" where
  "feature_path sFeatureDir d = path_join sFeatureDir (d @ ''.npy'')"

definition frame_paths :: "('i, 'v) fs \<Rightarrow> string \<Rightarrow> string \<Rightarrow> string list" where
  "frame_paths fs sFrameDir d =
     sort (glob fs 1 (path_join (path_join sFrameDir d) ''*.jpg''))"

definition feature_step ::
  "('i list \<Rightarrow> error + 'v ndarray) \<Rightarrow> string \<Rightarrow> string \<Rightarrow> int \<Rightarrow>
   ('i, 'v) fs \<Rightarrow> string \<Rightarrow> error option \<times> ('i, 'v) fs" where
  "feature_step cnn sFrameDir sFeatureDir nFramesNorm fs d =
     (let sFeaturePath = feature_path sFeatureDir d in
      if exists fs sFeaturePath then (None, fs)
      else
        (case makedirs fs (dirname sFeaturePath) of
           (Some e, fs1) \<Rightarrow> (Some e, fs1)
         | (None, fs1) \<Rightarrow>
             (let sFrames = frame_paths fs1 sFrameDir d in
              if int (length sFrames) \<noteq> nFramesNorm then (Some AssertionError, fs1)
              else
                (case load_frames fs1 sFrames of
                   Inl e \<Rightarrow> (Some e, fs1)
                 | Inr liFrames \<Rightarrow>
                     (case cnn liFrames of
                        Inl e \<Rightarrow> (Some e, fs1)
                      | Inr arFeatures \<Rightarrow>
                          (case reshape_rows nFramesNorm arFeatures of
                             Inl e \<Rightarrow> (Some e, fs1)
                           | Inr arFlat \<Rightarrow> np_save fs1 sFeaturePath arFlat))))))"

fun feature_loop ::
  "('i list \<Rightarrow> error + 'v ndarray) \<Rightarrow> string \<Rightarrow> string \<Rightarrow> int \<Rightarrow>
   ('i, 'v) fs \<Rightarrow> string list \<Rightarrow> error option \<times> ('i, 'v) fs" where
  "feature_loop cnn sFrameDir sFeatureDir nFramesNorm fs [] = (None, fs)"
| "feature_loop cnn sFrameDir sFeatureDir nFramesNorm fs (d # rest) =
     (case feature_step cnn sFrameDir sFeatureDir nFramesNorm fs d of
        (Some e, fs1) \<Rightarrow> (Some e, fs1)
      | (None, fs1) \<Rightarrow> feature_loop cnn sFrameDir sFeatureDir nFramesNorm fs1 rest)"

text \<open>
  \<open>frames2features\<close> (lines 90 to 147): the guard on the output directory, the change
  into \<open>sFrameDir\<close> (\<open>OSError\<close> unless it names a directory) and the listing \<open>*/*/*\<close>
  relative to it, the restriction to the first classes, the loop.
\<close>

definition frames2features ::
  "('i list \<Rightarrow> error + 'v ndarray) \<Rightarrow> string \<Rightarrow> string \<Rightarrow> int \<Rightarrow> int option \<Rightarrow>
   ('i, 'v) fs \<Rightarrow> error option \<times> ('i, 'v) fs" where
  "frames2features cnn sFrameDir sFeatureDir nFramesNorm nClasses fs =
     (if exists fs sFeatureDir then (Some ValueError, fs)
      else if sFrameDir = [] \<or> map_of fs sFrameDir \<noteq> Some Dir then (Some OSError, fs)
      else
        (case restrict_classes nClasses (glob_rel fs sFrameDir 3 ''*/*/*'') of
           Inl e \<Rightarrow> (Some e, fs)
         | Inr dfVideos \<Rightarrow> feature_loop cnn sFrameDir sFeatureDir nFramesNorm fs dfVideos))"

section \<open>Stage 4: predict\<close>

text \<open>
  \<open>predict\<close> (lines 221 to 244).  The loader \<open>VideoFeatures\<close> and the class table
  come from the module \<open>deeplearning\<close>, which is not among the sources, so what they
  deliver is a parameter: the loaded features \<open>arFeatures\<close>, the labels \<open>liLabels\<close> of
  the videos, and the table \<open>dfClass\<close> from class index to class name.  \<open>keModel\<close> is
  the network: one row of probabilities per video.

  \<open>argmax\<close> is numpy's \<open>argmax\<close> of one row: a scan that keeps the first position of
  the largest value, \<open>ValueError\<close> for an empty row.  \<open>loc\<close> is the lookup
  \<open>dfClass.loc[i, "sClass"]\<close>, \<open>KeyError\<close> for a missing index.  The comparison of the
  labels with the predicted names is element by element and raises \<open>ValueError\<close> for
  different lengths; its mean is the number printed, not a number for no videos.
\<close>

fun argmax_scan :: "'a::linorder list \<Rightarrow> nat \<Rightarrow> 'a \<Rightarrow> nat \<Rightarrow> nat" where
  "argmax_scan [] i best k = k"
| "argmax_scan (y # ys) i best k =
     (if best < y then argmax_scan ys (Suc i) y i else argmax_scan ys (Suc i) best k)"

definition argmax :: "'a::linorder list \<Rightarrow> error + nat" where
  "argmax row = (case row of [] \<Rightarrow> Inl ValueError | x # xs \<Rightarrow> Inr (argmax_scan xs 1 x 0))"

fun all_rows :: "('a \<Rightarrow> error + 'b) \<Rightarrow> 'a list \<Rightarrow> error + 'b list" where
  "all_rows f [] = Inr []"
| "all_rows f (x # xs) =
     (case f x of
        Inl e \<Rightarrow> Inl e
      | Inr y \<Rightarrow> (case all_rows f xs of Inl e \<Rightarrow> Inl e | Inr ys \<Rightarrow> Inr (y # ys)))"

definition loc :: "(nat \<times> string) list \<Rightarrow> nat \<Rightarrow> error + string" where
  "loc dfClass i = (case map_of dfClass i of None \<Rightarrow> Inl KeyError | Some sClass \<Rightarrow> Inr sClass)"

datatype accuracy = NaN | Acc rat

definition mean_equal :: "string list \<Rightarrow> string list \<Rightarrow> accuracy" where
  "mean_equal xs ys =
     (if xs = [] then NaN
      else Acc (of_nat (length (filter (\<lambda>(x, y). x = y) (zip xs ys))) / of_nat (length xs)))"

definition predict ::
  "('f \<Rightarrow> 'a::linorder list list) \<Rightarrow> (nat \<times> string) list \<Rightarrow> 'f \<Rightarrow> string list \<Rightarrow>
   error + accuracy" where
  "predict keModel dfClass arFeatures liLabels =
     (let arProba = keModel arFeatures in
      case all_rows argmax arProba of
        Inl e \<Rightarrow> Inl e
      | Inr arPred \<Rightarrow>
          (case all_rows (loc dfClass) arPred of
             Inl e \<Rightarrow> Inl e
           | Inr liNames \<Rightarrow>
               if length liLabels \<noteq> length liNames then Inl ValueError
               else Inr (mean_equal liLabels liNames)))"

section \<open>Notions of the specification\<close>

text \<open>
  The label of a path is its second-to-last component.  The first \<open>k\<close> labels, in
  ascending order of the distinct labels of a listing, are the labels with fewer than
  \<open>k\<close> distinct labels below them.  \<open>chosen nClasses ps\<close> are the paths the
  specification selects from the listing \<open>ps\<close>; a class count is not negative.
\<close>

definition label :: "string \<Rightarrow> string" where
  "label p = rev (split_on CHR ''/'' p) ! 1"

definition first_classes :: "nat \<Rightarrow> string list \<Rightarrow> string set" where
  "first_classes k ps = {l \<in> label ` set ps. card {l' \<in> label ` set ps. l' < l} < k}"

definition chosen :: "int option \<Rightarrow> string list \<Rightarrow> string list" where
  "chosen nClasses ps =
     (case nClasses of
        None \<Rightarrow> ps
      | Some k \<Rightarrow> filter (\<lambda>p. label p \<in> first_classes (nat k) ps) ps)"

definition count_ok :: "int option \<Rightarrow> bool" where
  "count_ok nClasses = (case nClasses of None \<Rightarrow> True | Some k \<Rightarrow> 0 \<le> k)"

text \<open>
  The class of maximal predicted probability of a row: a position whose value no other
  value exceeds, the first one among equals.
\<close>

definition is_argmax :: "'a::linorder list \<Rightarrow> nat \<Rightarrow> bool" where
  "is_argmax row k =
     (k < length row \<and> (\<forall>j < length row. row ! j \<le> row ! k) \<and> (\<forall>j < k. row ! j < row ! k))"




section \<open>Example inputs\<close>

text \<open>
  A small video directory with two classes, a frame directory as \<open>video2frames\<close>
  leaves it for one frame per video, and stand-ins for the external tools: every video
  lasts two seconds and decodes to three frames, and the network returns two features
  per frame.
\<close>

definition ex_videos :: "(nat, nat) fs" where
  "ex_videos =
     [(''V'', Dir), (''V/train'', Dir), (''V/train/c2'', Dir), (''V/train/c1'', Dir),
      (''V/train/c2/b.avi'', Data), (''V/train/c1/a.avi'', Data)]"

definition ex_frames :: "(nat, nat) fs" where
  "ex_frames =
     [(''S'', Dir), (''S/train'', Dir), (''S/train/c2'', Dir), (''S/train/c2/b'', Dir),
      (''S/train/c2/b/frame-001.jpg'', Image 5), (''S/train/c1'', Dir),
      (''S/train/c1/a'', Dir), (''S/train/c1/a/frame-001.jpg'', Image 7)]"

definition ex_mediainfo :: "string \<Rightarrow> error + int" where
  "ex_mediainfo v = Inr 2000"

definition ex_transcode :: "string \<Rightarrow> nat list" where
  "ex_transcode v = [10, 20, 30]"

definition ex_cnn :: "nat list \<Rightarrow> error + nat ndarray" where
  "ex_cnn xs = Inr \<lparr>shape = [length xs, 1, 2], flat = concat (map (\<lambda>x. [x, Suc x]) xs)\<rparr>"

text \<open>
  The file system after \<open>frames2features\<close> has run on \<open>ex_frames\<close> with the feature
  directory \<open>G\<close>, and one in which the feature files lie next to the working directory.
\<close>

definition ex_features :: "(nat, nat) fs" where
  "ex_features =
     ex_frames @
     [(''G'', Dir), (''G/train'', Dir), (''G/train/c2'', Dir),
      (''G/train/c2/b.npy'', Array \<lparr>shape = [1, 2], flat = [5, 6]\<rparr>),
      (''G/train/c1'', Dir),
      (''G/train/c1/a.npy'', Array \<lparr>shape = [1, 2], flat = [7, 8]\<rparr>)]"

definition ex_local :: "(nat, nat) fs" where
  "ex_local =
     ex_frames @
     [(''train'', Dir), (''train/c2'', Dir),
      (''train/c2/b.npy'', Array \<lparr>shape = [1, 2], flat = [0, 0]\<rparr>),
      (''train/c1'', Dir),
      (''train/c1/a.npy'', Array \<lparr>shape = [1, 2], flat = [0, 0]\<rparr>)]"

text \<open>A network that predicts two videos over three classes, and a class table.\<close>

definition ex_model :: "unit \<Rightarrow> nat list list" where
  "ex_model arFeatures = [[1, 7, 2], [5, 5, 2]]"

definition ex_classes :: "(nat \<times> string) list" where
  "ex_classes = [(0, ''wave''), (1, ''point''), (2, ''stop'')]"

section \<open>Facts about strings and paths\<close>

lemma split_on_not_Nil [simp]: "split_on c s \<noteq> []"
  by (induction s) (auto split: list.splits)

lemma length_split_on_pos [simp]: "0 < length (split_on c s)"
  by (simp add: Suc_leI)

lemma split_on_append: "split_on c (a @ c # b) = split_on c a @ split_on c b"
  by (induction a) (auto split: list.splits)

lemma split_on_nosep: "c \<notin> set s \<Longrightarrow> split_on c s = [s]"
  by (induction s) (auto split: list.splits)

lemma split_on_free: "x \<in> set (split_on c s) \<Longrightarrow> c \<notin> set x"
  by (induction s arbitrary: x) (auto split: list.splits if_splits)

lemma hd_split_on: "hd (split_on c s) = takeWhile (\<lambda>x. x \<noteq> c) s"
  by (induction s) (auto split: list.splits)

lemma join_split_on: "join_on c (split_on c s) = s"
proof (induction s)
  case Nil
  then show ?case by simp
next
  case (Cons x s)
  obtain r rs where e: "split_on c s = r # rs"
    by (cases "split_on c s") auto
  show ?case
  proof (cases "x = c")
    case True
    with e Cons show ?thesis by simp
  next
    case False
    with e Cons show ?thesis by (cases rs) auto
  qed
qed


lemma py_get_neg: "k < length xs \<Longrightarrow> py_get xs (- int (Suc k)) = Inr (rev xs ! k)"
  by (auto simp: py_get_def rev_nth intro!: arg_cong[where f="nth xs"])

lemma py_get_0: "xs \<noteq> [] \<Longrightarrow> py_get xs 0 = Inr (hd xs)"
  by (cases xs) (auto simp: py_get_def)

lemma frame_dir_short:
  "length (split_on CHR ''/'' v) < 4 \<Longrightarrow> frame_dir S v = Inl ValueError"
  by (simp add: frame_dir_def)

lemma frame_dir_long:
  assumes "4 \<le> length (split_on CHR ''/'' v)"
  shows "frame_dir S v =
    Inr (S @ ''/'' @ rev (split_on CHR ''/'' v) ! 2 @ ''/'' @
         rev (split_on CHR ''/'' v) ! 1 @ ''/'' @
         takeWhile (\<lambda>x. x \<noteq> CHR ''.'') (rev (split_on CHR ''/'' v) ! 0))"
proof -
  let ?li = "split_on CHR ''/'' v"
  have a: "py_get ?li (- 1) = Inr (rev ?li ! 0)"
    using py_get_neg[of 0 ?li] assms by simp
  have b: "py_get ?li (- 2) = Inr (rev ?li ! 1)"
    using py_get_neg[of 1 ?li] assms by simp
  have c: "py_get ?li (- 3) = Inr (rev ?li ! 2)"
    using py_get_neg[of 2 ?li] assms by simp
  show ?thesis
    using assms by (simp add: frame_dir_def Let_def a b c py_get_0 hd_split_on)
qed

section \<open>Facts about the file system operations\<close>

lemma map_of_snoc:
  "map_of (fs @ [(q, x)]) p = (case map_of fs p of None \<Rightarrow> (if p = q then Some x else None) | Some y \<Rightarrow> Some y)"
  by (simp add: map_add_def split: option.splits)

lemma map_of_write_file:
  "map_of (write_file fs p x) =
     (if map_of fs p = Some Dir then map_of fs else (map_of fs)(p \<mapsto> x))"
  by (auto simp: write_file_def update_conv' split: option.splits node.splits)

lemma mkdirs_new:
  "mkdirs fs qs = (r, fs') \<Longrightarrow> map_of fs' p = Some x \<Longrightarrow>
     map_of fs p = Some x \<or> (map_of fs p = None \<and> x = Dir \<and> p \<in> set qs)"
proof (induction qs arbitrary: fs)
  case Nil
  then show ?case by simp
next
  case (Cons q qs)
  show ?case
  proof (cases "map_of fs q")
    case None
    with Cons.prems have "mkdirs (fs @ [(q, Dir)]) qs = (r, fs')" by simp
    from Cons.IH[OF this Cons.prems(2)] None show ?thesis
      by (auto simp: map_of_snoc split: option.splits if_splits)
  next
    case (Some y)
    with Cons show ?thesis by (cases y) auto
  qed
qed

lemma mkdirs_mono:
  "mkdirs fs qs = (r, fs') \<Longrightarrow> map_of fs p = Some x \<Longrightarrow> map_of fs' p = Some x"
proof (induction qs arbitrary: fs)
  case Nil
  then show ?case by simp
next
  case (Cons q qs)
  show ?case
  proof (cases "map_of fs q")
    case None
    with Cons.prems have m: "mkdirs (fs @ [(q, Dir)]) qs = (r, fs')" by simp
    have "map_of (fs @ [(q, Dir)]) p = Some x"
      using Cons.prems(2) by (simp add: map_of_snoc)
    from Cons.IH[OF m this] show ?thesis .
  next
    case (Some y)
    with Cons show ?thesis by (cases y) auto
  qed
qed

lemma makedirs_new:
  "makedirs fs d = (r, fs') \<Longrightarrow> map_of fs' p = Some x \<Longrightarrow>
     map_of fs p = Some x \<or> (map_of fs p = None \<and> x = Dir \<and> p \<in> set (ancestors d))"
  by (auto simp: makedirs_def split: if_splits dest: mkdirs_new)

lemma makedirs_mono:
  "makedirs fs d = (r, fs') \<Longrightarrow> map_of fs p = Some x \<Longrightarrow> map_of fs' p = Some x"
  by (auto simp: makedirs_def split: if_splits dest: mkdirs_mono)

lemma reshape_rows_shape:
  "reshape_rows n a = Inr b \<Longrightarrow>
     shape b = [nat n, prod_list (shape a) div nat n] \<and> flat b = flat a \<and> 0 < n"
  by (auto simp: reshape_rows_def Let_def split: if_splits)

text \<open>
  What one pass of the loop body of \<open>frames2features\<close> does to the file system: an
  entry of the result is an entry of the start, or a new ancestor directory of the
  feature file, or the feature file itself, an array of \<open>nFramesNorm\<close> rows.
\<close>

lemma feature_step_new:
  assumes "feature_step cnn S F n fs d = (r, fs')" and "map_of fs' p = Some x"
  shows "map_of fs p = Some x \<or>
         (map_of fs p = None \<and>
           ((x = Dir \<and> p \<in> set (ancestors (dirname (feature_path F d)))) \<or>
            (p = feature_path F d \<and> (\<exists>a w. x = Array a \<and> shape a = [nat n, w] \<and> 0 < n))))"
proof (cases "exists fs (feature_path F d)")
  case True
  with assms show ?thesis by (simp add: feature_step_def)
next
  case False
  obtain r1 fs1 where mk: "makedirs fs (dirname (feature_path F d)) = (r1, fs1)"
    by (cases "makedirs fs (dirname (feature_path F d))")
  have step1: "map_of fs1 q = Some y \<Longrightarrow>
      map_of fs q = Some y \<or>
      (map_of fs q = None \<and> y = Dir \<and> q \<in> set (ancestors (dirname (feature_path F d))))" for q y
    using makedirs_new[OF mk] by blast
  show ?thesis
  proof (cases "fs' = fs1")
    case True
    with step1 assms(2) show ?thesis by blast
  next
    case diff: False
    with assms(1) False mk obtain a where
      sv: "np_save fs1 (feature_path F d) a = (r, fs')" and sh: "\<exists>w. shape a = [nat n, w] \<and> 0 < n"
      by (auto simp: feature_step_def Let_def
          split: option.splits if_splits sum.splits dest: reshape_rows_shape)
    from sv diff have fs': "fs' = write_file fs1 (feature_path F d) (Array a)"
      and nd: "map_of fs1 (feature_path F d) \<noteq> Some Dir"
      by (auto simp: np_save_def split: if_splits)
    show ?thesis
    proof (cases "p = feature_path F d")
      case True
      with assms(2) fs' nd have "x = Array a"
        by (simp add: map_of_write_file)
      moreover from False True have "map_of fs p = None"
        by (simp add: exists_def)
      ultimately show ?thesis using True sh by blast
    next
      case False
      with assms(2) fs' have "map_of fs1 p = Some x"
        by (simp add: map_of_write_file split: if_splits)
      with step1 show ?thesis by blast
    qed
  qed
qed

lemma feature_step_mono:
  assumes "feature_step cnn S F n fs d = (r, fs')" and "map_of fs p = Some x"
  shows "map_of fs' p = Some x"
proof (cases "exists fs (feature_path F d)")
  case True
  with assms show ?thesis by (simp add: feature_step_def)
next
  case False
  obtain r1 fs1 where mk: "makedirs fs (dirname (feature_path F d)) = (r1, fs1)"
    by (cases "makedirs fs (dirname (feature_path F d))")
  have p1: "map_of fs1 p = Some x"
    using makedirs_mono[OF mk assms(2)] .
  show ?thesis
  proof (cases "fs' = fs1")
    case True
    with p1 show ?thesis by simp
  next
    case diff: False
    with assms(1) False mk obtain a where
      sv: "np_save fs1 (feature_path F d) a = (r, fs')"
      by (auto simp: feature_step_def Let_def split: option.splits if_splits sum.splits)
    from sv diff have fs': "fs' = write_file fs1 (feature_path F d) (Array a)"
      by (auto simp: np_save_def split: if_splits)
    from False assms(2) have "p \<noteq> feature_path F d"
      by (auto simp: exists_def)
    with fs' p1 show ?thesis
      by (simp add: map_of_write_file)
  qed
qed

lemma feature_loop_mono:
  "feature_loop cnn S F n fs ds = (r, fs') \<Longrightarrow> map_of fs p = Some x \<Longrightarrow> map_of fs' p = Some x"
proof (induction ds arbitrary: fs)
  case Nil
  then show ?case by simp
next
  case (Cons d ds)
  obtain r1 fs1 where st: "feature_step cnn S F n fs d = (r1, fs1)"
    by (cases "feature_step cnn S F n fs d")
  have p1: "map_of fs1 p = Some x"
    using feature_step_mono[OF st Cons.prems(2)] .
  show ?case
  proof (cases r1)
    case None
    with st Cons.prems(1) have "feature_loop cnn S F n fs1 ds = (r, fs')" by simp
    from Cons.IH[OF this p1] show ?thesis .
  next
    case (Some e)
    with st Cons.prems(1) p1 show ?thesis by simp
  qed
qed

lemma feature_loop_new:
  "feature_loop cnn S F n fs ds = (r, fs') \<Longrightarrow> map_of fs' p = Some x \<Longrightarrow>
     map_of fs p = Some x \<or>
     (map_of fs p = None \<and>
       (\<exists>d \<in> set ds.
          (x = Dir \<and> p \<in> set (ancestors (dirname (feature_path F d)))) \<or>
          (p = feature_path F d \<and> (\<exists>a w. x = Array a \<and> shape a = [nat n, w] \<and> 0 < n))))"
proof (induction ds arbitrary: fs)
  case Nil
  then show ?case by simp
next
  case (Cons d ds)
  obtain r1 fs1 where st: "feature_step cnn S F n fs d = (r1, fs1)"
    by (cases "feature_step cnn S F n fs d")
  have via: "map_of fs1 p = Some x \<Longrightarrow> ?case"
    using feature_step_new[OF st, of p x] by auto
  show ?case
  proof (cases r1)
    case None
    with st Cons.prems(1) have lp: "feature_loop cnn S F n fs1 ds = (r, fs')" by simp
    from Cons.IH[OF lp Cons.prems(2)] show ?thesis
    proof
      assume "map_of fs1 p = Some x"
      then show ?thesis by (rule via)
    next
      assume new: "map_of fs1 p = None \<and>
        (\<exists>d \<in> set ds.
          (x = Dir \<and> p \<in> set (ancestors (dirname (feature_path F d)))) \<or>
          (p = feature_path F d \<and> (\<exists>a w. x = Array a \<and> shape a = [nat n, w] \<and> 0 < n)))"
      have "map_of fs p = None"
      proof (cases "map_of fs p")
        case None
        then show ?thesis .
      next
        case (Some y)
        from feature_step_mono[OF st Some] new show ?thesis by simp
      qed
      with new show ?thesis by auto
    qed
  next
    case (Some e)
    with st Cons.prems have "map_of fs1 p = Some x" by simp
    then show ?thesis by (rule via)
  qed
qed

lemma frames2features_result:
  "frames2features cnn S F n nClasses fs = (r, fs') \<Longrightarrow>
     fs' = fs \<or>
     (\<exists>ds. restrict_classes nClasses (glob_rel fs S 3 ''*/*/*'') = Inr ds \<and>
           feature_loop cnn S F n fs ds = (r, fs'))"
  by (auto simp: frames2features_def split: if_splits sum.splits)

lemma feature_loop_skip_all:
  "\<forall>d \<in> set ds. exists fs (feature_path F d) \<Longrightarrow> feature_loop cnn S F n fs ds = (None, fs)"
  by (induction ds) (simp_all add: feature_step_def)

lemma set_chosen: "set (chosen nClasses ps) \<subseteq> set ps"
  by (auto simp: chosen_def split: option.splits)

section \<open>Facts about listings\<close>

lemma join_on_append:
  "xs \<noteq> [] \<Longrightarrow> ys \<noteq> [] \<Longrightarrow> join_on c (xs @ ys) = join_on c xs @ c # join_on c ys"
proof (induction xs rule: join_on.induct)
  case (1 c)
  then show ?case by simp
next
  case (2 c x)
  then show ?case by (cases ys) auto
next
  case (3 c x y ys)
  then show ?case by simp
qed

lemma split_join_on:
  "cs \<noteq> [] \<Longrightarrow> \<forall>x \<in> set cs. c \<notin> set x \<Longrightarrow> split_on c (join_on c cs) = cs"
proof (induction cs rule: join_on.induct)
  case (1 c)
  then show ?case by simp
next
  case (2 c x)
  then show ?case by (simp add: split_on_nosep)
next
  case (3 c x y ys)
  then show ?case by (simp add: split_on_append split_on_nosep)
qed

lemma path_of_components:
  assumes "split_on c p = split_on c D @ ns" and "ns \<noteq> []"
  shows "p = D @ c # join_on c ns"
proof -
  have "p = join_on c (split_on c D @ ns)"
    using assms(1) join_split_on[of c p] by simp
  also have "\<dots> = join_on c (split_on c D) @ c # join_on c ns"
    using assms(2) by (simp add: join_on_append)
  finally show ?thesis by (simp add: join_split_on)
qed

lemma set_glob: "set (glob fs k pat) = {p \<in> fst ` set fs. glob_match k pat p}"
  by (auto simp: glob_def)

lemma distinct_glob [simp]: "distinct (glob fs k pat)"
  by (simp add: glob_def)

lemma glob_match_iff:
  assumes "length (split_on CHR ''/'' pat) = k"
  shows "glob_match k (D @ CHR ''/'' # pat) p \<longleftrightarrow>
    (\<exists>ns. split_on CHR ''/'' p = split_on CHR ''/'' D @ ns \<and>
          list_all2 name_match (split_on CHR ''/'' pat) ns)"
proof
  let ?d = "split_on CHR ''/'' D" and ?ps = "split_on CHR ''/'' pat" and ?cs = "split_on CHR ''/'' p"
  assume "glob_match k (D @ CHR ''/'' # pat) p"
  then have len: "length ?cs = length ?d + k" and tk: "take (length ?d) ?cs = ?d"
    and al: "list_all2 name_match ?ps (drop (length ?d) ?cs)"
    using assms by (auto simp: glob_match_def Let_def split_on_append)
  have "?cs = ?d @ drop (length ?d) ?cs"
    using tk append_take_drop_id[of "length ?d" ?cs] by simp
  with al show "\<exists>ns. ?cs = ?d @ ns \<and> list_all2 name_match ?ps ns" by blast
next
  assume "\<exists>ns. split_on CHR ''/'' p = split_on CHR ''/'' D @ ns \<and>
          list_all2 name_match (split_on CHR ''/'' pat) ns"
  then obtain ns where "split_on CHR ''/'' p = split_on CHR ''/'' D @ ns"
    and "list_all2 name_match (split_on CHR ''/'' pat) ns" by blast
  then show "glob_match k (D @ CHR ''/'' # pat) p"
    using assms by (auto simp: glob_match_def Let_def split_on_append dest: list_all2_lengthD)
qed



lemma glob_match_avi:
  "glob_match 3 (V @ ''/*/*/*.avi'') p \<longleftrightarrow>
     (\<exists>a b c. split_on CHR ''/'' p = split_on CHR ''/'' V @ [a, b, c] \<and>
        name_match ''*'' a \<and> name_match ''*'' b \<and> name_match ''*.avi'' c)"
  using glob_match_iff[of "''*/*/*.avi''" 3 V p]
  by (auto simp: list_all2_Cons1)

lemma glob_match_dirs:
  "glob_match 3 (S @ ''/'' @ ''*/*/*'') p \<longleftrightarrow>
     (\<exists>a b c. split_on CHR ''/'' p = split_on CHR ''/'' S @ [a, b, c] \<and>
        name_match ''*'' a \<and> name_match ''*'' b \<and> name_match ''*'' c)"
  using glob_match_iff[of "''*/*/*''" 3 S p]
  by (auto simp: list_all2_Cons1)

lemma components_free:
  assumes "split_on c p = xs @ ys" and "y \<in> set ys"
  shows "c \<notin> set y"
  using split_on_free[of y c p] assms by simp

text \<open>A listed video has at least four components.\<close>

lemma glob_avi_length:
  "p \<in> set (glob fs 3 (V @ ''/*/*/*.avi'')) \<Longrightarrow> 4 \<le> length (split_on CHR ''/'' p)"
  by (auto simp: set_glob glob_match_avi Suc_le_eq)

text \<open>A listed frame directory is a relative path of three components.\<close>

lemma glob_rel_dirs:
  assumes "d \<in> set (glob_rel fs S 3 ''*/*/*'')"
  shows "\<exists>a b c. d = a @ ''/'' @ b @ ''/'' @ c \<and> split_on CHR ''/'' d = [a, b, c] \<and>
     S @ ''/'' @ d \<in> fst ` set fs \<and>
     name_match ''*'' a \<and> name_match ''*'' b \<and> name_match ''*'' c \<and>
     CHR ''/'' \<notin> set a \<and> CHR ''/'' \<notin> set b \<and> CHR ''/'' \<notin> set c"
proof -
  from assms obtain p where p: "p \<in> fst ` set fs" "glob_match 3 (S @ ''/'' @ ''*/*/*'') p"
    and d: "d = drop (length S + 1) p"
    by (auto simp: glob_rel_def set_glob)
  from p(2) obtain a b c where sp: "split_on CHR ''/'' p = split_on CHR ''/'' S @ [a, b, c]"
    and nm: "name_match ''*'' a" "name_match ''*'' b" "name_match ''*'' c"
    unfolding glob_match_dirs by blast
  have fr: "CHR ''/'' \<notin> set a" "CHR ''/'' \<notin> set b" "CHR ''/'' \<notin> set c"
    using components_free[OF sp] by simp_all
  have pe: "p = S @ CHR ''/'' # join_on CHR ''/'' [a, b, c]"
    using path_of_components[OF sp] by simp
  then have de: "d = a @ ''/'' @ b @ ''/'' @ c"
    using d by simp
  have "split_on CHR ''/'' d = [a, b, c]"
    using split_join_on[of "[a, b, c]" "CHR ''/''"] fr de by simp
  with de pe p(1) nm fr show ?thesis by auto
qed

lemma labels_of_ok:
  "\<forall>p \<in> set ps. 2 \<le> length (split_on CHR ''/'' p) \<Longrightarrow> labels_of ps = Inr (map label ps)"
proof (induction ps)
  case Nil
  then show ?case by simp
next
  case (Cons p ps)
  then have "py_get (split_on CHR ''/'' p) (- 2) = Inr (label p)"
    using py_get_neg[of 1 "split_on CHR ''/'' p"] by (simp add: label_def)
  with Cons show ?case by simp
qed

lemma filter_zip_map:
  "map fst (filter (\<lambda>(p, l). P l) (zip ps (map f ps))) = filter (\<lambda>p. P (f p)) ps"
  by (induction ps) auto

lemma restrict_classes_Some:
  assumes "\<forall>p \<in> set ps. 2 \<le> length (split_on CHR ''/'' p)" and "0 \<le> k"
  shows "restrict_classes (Some k) ps =
    Inr (filter (\<lambda>p. label p \<in> set (take (nat k) (sort (remdups (map label ps))))) ps)"
  using assms by (simp add: restrict_classes_def labels_of_ok py_prefix_def filter_zip_map)

lemma take_sorted_distinct:
  "sorted xs \<Longrightarrow> distinct xs \<Longrightarrow>
     set (take k xs) = {x \<in> set xs. card {y \<in> set xs. y < x} < k}"
proof (induction xs arbitrary: k)
  case Nil
  then show ?case by simp
next
  case (Cons a xs)
  show ?case
  proof (cases k)
    case 0
    then show ?thesis by simp
  next
    case (Suc j)
    define below where "below x = {y \<in> set (a # xs). y < x}" for x
    define below' where "below' x = {y \<in> set xs. y < x}" for x
    have lt: "\<forall>x \<in> set xs. a < x" using Cons.prems by (auto simp: less_le)
    have c0: "card (below a) = 0"
    proof -
      have "below a = {}" using lt unfolding below_def by (auto simp: not_less dest: less_imp_le)
      then show ?thesis by simp
    qed
    have c1: "card (below x) = Suc (card (below' x))" if x: "x \<in> set xs" for x
    proof -
      have e: "below x = insert a (below' x)"
        using lt x unfolding below_def below'_def by auto
      have "a \<notin> below' x" using Cons.prems unfolding below'_def by simp
      moreover have "finite (below' x)" unfolding below'_def by simp
      ultimately show ?thesis unfolding e by simp
    qed
    have ih: "set (take j xs) = {x \<in> set xs. card (below' x) < j}"
      using Cons unfolding below'_def by simp
    have "set (take k (a # xs)) = insert a (set (take j xs))" using Suc by simp
    also have "\<dots> = {x \<in> set (a # xs). card (below x) < k}"
    proof (intro set_eqI iffI)
      fix x assume "x \<in> insert a (set (take j xs))"
      then consider "x = a" | "x \<in> set xs" "card (below' x) < j" using ih by auto
      then show "x \<in> {x \<in> set (a # xs). card (below x) < k}"
      proof cases
        case 1
        then show ?thesis using c0 Suc by simp
      next
        case 2
        then show ?thesis using c1[of x] Suc by simp
      qed
    next
      fix x assume "x \<in> {x \<in> set (a # xs). card (below x) < k}"
      then have m: "x \<in> set (a # xs)" and c: "card (below x) < k" by auto
      show "x \<in> insert a (set (take j xs))"
      proof (cases "x = a")
        case True
        then show ?thesis by simp
      next
        case False
        with m have x: "x \<in> set xs" by simp
        with c c1[OF x] Suc have "card (below' x) < j" by simp
        with x ih show ?thesis by simp
      qed
    qed
    finally show ?thesis unfolding below_def .
  qed
qed

lemma first_sorted_labels:
  "set (take k (sort (remdups ls))) = {l \<in> set ls. card {l' \<in> set ls. l' < l} < k}"
  using take_sorted_distinct[of "sort (remdups ls)" k] by simp

lemma chosen_code:
  "chosen (Some k) ps =
     filter (\<lambda>p. label p \<in> set (take (nat k) (sort (remdups (map label ps))))) ps"
  by (simp add: chosen_def first_classes_def first_sorted_labels)

lemma restrict_classes_chosen:
  assumes "\<forall>p \<in> set ps. 2 \<le> length (split_on CHR ''/'' p)" and "count_ok nClasses"
  shows "restrict_classes nClasses ps = Inr (chosen nClasses ps)"
proof (cases nClasses)
  case None
  then show ?thesis by (simp add: restrict_classes_def chosen_def)
next
  case (Some k)
  with assms show ?thesis
    by (simp add: restrict_classes_Some chosen_code count_ok_def)
qed

lemma glob_rel_length:
  "d \<in> set (glob_rel fs S 3 ''*/*/*'') \<Longrightarrow> length (split_on CHR ''/'' d) = 3"
  using glob_rel_dirs[of d fs S] by auto

section \<open>Facts about the frame numbers\<close>

lemma digit_char_cases:
  "d < 10 \<Longrightarrow> d = 0 \<or> d = 1 \<or> d = 2 \<or> d = 3 \<or> d = 4 \<or> d = 5 \<or> d = 6 \<or> d = 7 \<or> d = 8 \<or> d = (9::nat)"
  by arith

lemma of_char_digit: "d < 10 \<Longrightarrow> (of_char (digit_char d) :: nat) = 48 + d"
  using digit_char_cases[of d] by (auto simp: digit_char_def)


lemma digit_char_inj: "d < 10 \<Longrightarrow> e < 10 \<Longrightarrow> digit_char d = digit_char e \<Longrightarrow> d = e"
  by (metis of_char_digit add_left_cancel)


declare digits10.simps [simp del]














section \<open>Facts about the frame directories\<close>























section \<open>Facts about the feature paths\<close>



















section \<open>Runs on well-formed inputs\<close>











section \<open>Facts about the order of the frame files\<close>












section \<open>Facts about the prediction\<close>

lemma argmax_scan_spec:
  assumes "row = pre @ ys" and "i = length pre" and "k < i" and "best = row ! k"
    and "\<forall>j < i. row ! j \<le> best" and "\<forall>j < k. row ! j < best"
  shows "is_argmax row (argmax_scan ys i best k)"
  using assms
proof (induction ys arbitrary: pre i best k)
  case Nil
  then show ?case by (simp add: is_argmax_def)
next
  case (Cons y ys)
  have row: "row = (pre @ [y]) @ ys" and len: "Suc i = length (pre @ [y])"
    using Cons.prems by simp_all
  have yi: "row ! i = y" using Cons.prems(1,2) by simp
  show ?case
  proof (cases "best < y")
    case True
    have a: "\<forall>j < Suc i. row ! j \<le> y"
      using Cons.prems(5) True yi by (auto simp: less_Suc_eq intro: less_imp_le order_trans)
    have b: "\<forall>j < i. row ! j < y"
      using Cons.prems(5) True by (auto intro: le_less_trans)
    from Cons.IH[OF row len _ _ a b] True yi show ?thesis by simp
  next
    case False
    have a: "\<forall>j < Suc i. row ! j \<le> best"
      using Cons.prems(5) False yi by (auto simp: less_Suc_eq)
    from Cons.IH[OF row len _ Cons.prems(4) a Cons.prems(6)] Cons.prems(3) False
    show ?thesis by simp
  qed
qed

lemma argmax_spec: "argmax row = Inr k \<Longrightarrow> is_argmax row k"
proof (cases row)
  case Nil
  assume "argmax row = Inr k"
  with Nil show ?thesis by (simp add: argmax_def)
next
  case (Cons x xs)
  assume "argmax row = Inr k"
  with Cons have k: "k = argmax_scan xs 1 x 0" by (simp add: argmax_def)
  have "is_argmax row (argmax_scan xs 1 x 0)"
    by (rule argmax_scan_spec[where pre = "[x]"]) (simp_all add: Cons)
  with k show ?thesis by simp
qed

lemma all_rows_spec:
  "all_rows f xs = Inr ys \<Longrightarrow>
     length ys = length xs \<and> (\<forall>i < length xs. f (xs ! i) = Inr (ys ! i))"
proof (induction xs arbitrary: ys)
  case Nil
  then show ?case by simp
next
  case (Cons x xs)
  then obtain y ys' where y: "f x = Inr y" and r: "all_rows f xs = Inr ys'" and ys: "ys = y # ys'"
    by (auto split: sum.splits)
  from Cons.IH[OF r] y ys show ?case
    by (auto simp: nth_Cons split: nat.splits)
qed

lemma count_equal:
  assumes "length xs = length ys"
  shows "length (filter (\<lambda>(x, y). x = y) (zip xs ys)) = card {i. i < length xs \<and> ys ! i = xs ! i}"
proof -
  have "{i. i < length (zip xs ys) \<and> (\<lambda>(x, y). x = y) (zip xs ys ! i)} =
        {i. i < length xs \<and> ys ! i = xs ! i}"
    using assms by auto
  then show ?thesis by (simp only: length_filter_conv_card)
qed

lemma loc_spec: "loc dfClass i = Inr s \<Longrightarrow> map_of dfClass i = Some s"
  by (auto simp: loc_def split: option.splits)

section \<open>The path of a video and its frame directory\<close>

text \<open>
  Claim C9.  For a video path with fewer than four slash-separated components the loop
  body of \<open>video2frames\<close> raises \<open>ValueError\<close>, before it touches the file system.  For
  a path with at least four components the frame directory of the video is
  \<open>sFrameDir\<close>, the third-to-last component, the second-to-last component and the
  file name up to its first dot, joined by slashes.
\<close>

theorem video_path_components:
  "(length (split_on CHR ''/'' v) < 4 \<longrightarrow>
      video_step mediainfo transcode sFrameDir n fs v = (Some ValueError, fs)) \<and>
   (4 \<le> length (split_on CHR ''/'' v) \<longrightarrow>
      frame_dir sFrameDir v =
        Inr (sFrameDir @ ''/'' @ rev (split_on CHR ''/'' v) ! 2 @ ''/'' @
             rev (split_on CHR ''/'' v) ! 1 @ ''/'' @
             takeWhile (\<lambda>x. x \<noteq> CHR ''.'') (rev (split_on CHR ''/'' v) ! 0)))"
proof (intro conjI impI)
  assume "length (split_on CHR ''/'' v) < 4"
  then have "frame_dir sFrameDir v = Inl ValueError"
    by (rule frame_dir_short)
  then show "video_step mediainfo transcode sFrameDir n fs v = (Some ValueError, fs)"
    by (simp add: video_step_def)
next
  assume "4 \<le> length (split_on CHR ''/'' v)"
  then show "frame_dir sFrameDir v =
        Inr (sFrameDir @ ''/'' @ rev (split_on CHR ''/'' v) ! 2 @ ''/'' @
             rev (split_on CHR ''/'' v) ! 1 @ ''/'' @
             takeWhile (\<lambda>x. x \<noteq> CHR ''.'') (rev (split_on CHR ''/'' v) ! 0))"
    by (rule frame_dir_long)
qed

theorem video_path_components_witness:
  "video_step (\<lambda>v. Inr 1000) (\<lambda>v. [1, 2 :: nat]) ''F'' 2 ([] :: (nat, nat) fs) ''c1/a.avi''
     = (Some ValueError, []) \<and>
   frame_dir ''F'' ''V/train/c1/a.b.avi'' = Inr ''F/train/c1/a''"
  using video_path_components [of "''c1/a.avi''" "\<lambda>v. Inr 1000" "\<lambda>v. [1, 2 :: nat]" "''F''" 2 "[] :: (nat, nat) fs"]
    video_path_components [of "''V/train/c1/a.b.avi''" "\<lambda>v. Inr 1000" "\<lambda>v. [1, 2 :: nat]" "''F''" 2 "[] :: (nat, nat) fs"]
  by simp

section \<open>The restriction to the first classes\<close>

text \<open>
  Claim C8.  In \<open>video2frames\<close> and in \<open>frames2features\<close> alike, once the guard on the
  output directory has passed, the loop runs over exactly the chosen paths of the
  listing, in the order of the listing: with a class count \<open>k\<close> those whose label (the
  second-to-last component) is among the first \<open>k\<close> of the distinct labels in ascending
  order, without a class count all of them.
\<close>

theorem class_restriction:
  assumes "count_ok nClasses"
  shows "(\<not> exists fs sFrameDir \<longrightarrow>
            video2frames mediainfo transcode sVideoDir sFrameDir n nClasses fs =
            video_loop mediainfo transcode sFrameDir n fs
              (chosen nClasses (glob fs 3 (sVideoDir @ ''/*/*/*.avi'')))) \<and>
         (\<not> exists fs sFeatureDir \<and> sFrameDir \<noteq> [] \<and> map_of fs sFrameDir = Some Dir \<longrightarrow>
            frames2features cnn sFrameDir sFeatureDir n nClasses fs =
            feature_loop cnn sFrameDir sFeatureDir n fs
              (chosen nClasses (glob_rel fs sFrameDir 3 ''*/*/*'')))"
proof (intro conjI impI)
  assume "\<not> exists fs sFrameDir"
  moreover have "restrict_classes nClasses (glob fs 3 (sVideoDir @ ''/*/*/*.avi'')) =
      Inr (chosen nClasses (glob fs 3 (sVideoDir @ ''/*/*/*.avi'')))"
  proof (rule restrict_classes_chosen[OF _ assms], rule ballI)
    fix p assume "p \<in> set (glob fs 3 (sVideoDir @ ''/*/*/*.avi''))"
    from glob_avi_length[OF this] show "2 \<le> length (split_on CHR ''/'' p)" by simp
  qed
  ultimately show "video2frames mediainfo transcode sVideoDir sFrameDir n nClasses fs =
      video_loop mediainfo transcode sFrameDir n fs
        (chosen nClasses (glob fs 3 (sVideoDir @ ''/*/*/*.avi'')))"
    by (simp add: video2frames_def)
next
  assume a: "\<not> exists fs sFeatureDir \<and> sFrameDir \<noteq> [] \<and> map_of fs sFrameDir = Some Dir"
  have "restrict_classes nClasses (glob_rel fs sFrameDir 3 ''*/*/*'') =
      Inr (chosen nClasses (glob_rel fs sFrameDir 3 ''*/*/*''))"
  proof (rule restrict_classes_chosen[OF _ assms], rule ballI)
    fix d assume "d \<in> set (glob_rel fs sFrameDir 3 ''*/*/*'')"
    from glob_rel_length[OF this] show "2 \<le> length (split_on CHR ''/'' d)" by simp
  qed
  with a show "frames2features cnn sFrameDir sFeatureDir n nClasses fs =
      feature_loop cnn sFrameDir sFeatureDir n fs
        (chosen nClasses (glob_rel fs sFrameDir 3 ''*/*/*''))"
    by (simp add: frames2features_def)
qed

theorem class_restriction_witness:
  "count_ok (Some 1) \<and> \<not> exists ex_videos ''F'' \<and>
   video2frames ex_mediainfo ex_transcode ''V'' ''F'' 2 (Some 1) ex_videos =
     video_loop ex_mediainfo ex_transcode ''F'' 2 ex_videos [''V/train/c1/a.avi''] \<and>
   \<not> exists ex_frames ''G'' \<and> map_of ex_frames ''S'' = Some Dir \<and>
   frames2features ex_cnn ''S'' ''G'' 1 (Some 1) ex_frames =
     feature_loop ex_cnn ''S'' ''G'' 1 ex_frames [''train/c1/a'']"
proof -
  have c: "count_ok (Some 1)" by (simp add: count_ok_def)
  have e1: "\<not> exists ex_videos ''F''" by (simp add: exists_def ex_videos_def)
  have e2: "\<not> exists ex_frames ''G''" "map_of ex_frames ''S'' = Some Dir"
    by (simp_all add: exists_def ex_frames_def)
  have g1: "glob ex_videos 3 (''V'' @ ''/*/*/*.avi'') = [''V/train/c2/b.avi'', ''V/train/c1/a.avi'']"
    by code_simp
  have g2: "glob_rel ex_frames ''S'' 3 ''*/*/*'' = [''train/c2/b'', ''train/c1/a'']"
    by code_simp
  have s1: "chosen (Some 1) [''V/train/c2/b.avi'', ''V/train/c1/a.avi''] = [''V/train/c1/a.avi'']"
    unfolding chosen_code by code_simp
  have s2: "chosen (Some 1) [''train/c2/b'', ''train/c1/a''] = [''train/c1/a'']"
    unfolding chosen_code by code_simp
  show ?thesis
    using class_restriction[OF c, where fs = ex_videos and sFrameDir = "''F''"
          and mediainfo = ex_mediainfo and transcode = ex_transcode and sVideoDir = "''V''"
          and n = 2]
      class_restriction[OF c, where fs = ex_frames and sFrameDir = "''S''"
          and sFeatureDir = "''G''" and cnn = ex_cnn and n = 1]
      c e1 e2 unfolding g1 g2 s1 s2 by simp
qed

section \<open>The shape of the feature files\<close>

text \<open>
  Claim C3.  Every feature file that a run of \<open>frames2features\<close> writes, whether the run
  ends normally or with an exception, holds an array of shape \<open>(nFramesNorm, w)\<close> for
  some feature length \<open>w\<close>, and \<open>nFramesNorm\<close> is positive: one row per frame.
\<close>

theorem feature_shape:
  assumes "frames2features cnn sFrameDir sFeatureDir n nClasses fs = (r, fs')"
    and "map_of fs' p = Some (Array a)" and "map_of fs p = None"
  shows "\<exists>w. shape a = [nat n, w] \<and> 0 < n"
proof -
  from frames2features_result[OF assms(1)] assms(2,3)
  obtain ds where "feature_loop cnn sFrameDir sFeatureDir n fs ds = (r, fs')"
    by auto
  from feature_loop_new[OF this assms(2)] assms(3) show ?thesis
    by auto
qed

theorem feature_shape_witness:
  "frames2features ex_cnn ''S'' ''G'' 1 None ex_frames =
     (None, ex_frames @ [(''G'', Dir), (''G/train'', Dir), (''G/train/c2'', Dir),
        (''G/train/c2/b.npy'', Array \<lparr>shape = [1, 2], flat = [5, 6]\<rparr>),
        (''G/train/c1'', Dir),
        (''G/train/c1/a.npy'', Array \<lparr>shape = [1, 2], flat = [7, 8]\<rparr>)]) \<and>
   map_of ex_frames ''G/train/c1/a.npy'' = None \<and>
   (\<exists>w. shape \<lparr>shape = [1, 2], flat = [7, 8 :: nat]\<rparr> = [nat 1, w] \<and> (0 :: int) < 1)"
proof -
  have run: "frames2features ex_cnn ''S'' ''G'' 1 None ex_frames =
     (None, ex_frames @ [(''G'', Dir), (''G/train'', Dir), (''G/train/c2'', Dir),
        (''G/train/c2/b.npy'', Array \<lparr>shape = [1, 2], flat = [5, 6]\<rparr>),
        (''G/train/c1'', Dir),
        (''G/train/c1/a.npy'', Array \<lparr>shape = [1, 2], flat = [7, 8]\<rparr>)])"
    by code_simp
  have new: "map_of (ex_frames @ [(''G'', Dir), (''G/train'', Dir), (''G/train/c2'', Dir),
        (''G/train/c2/b.npy'', Array \<lparr>shape = [1, 2], flat = [5, 6]\<rparr>),
        (''G/train/c1'', Dir),
        (''G/train/c1/a.npy'', Array \<lparr>shape = [1, 2], flat = [7, 8]\<rparr>)]) ''G/train/c1/a.npy''
      = Some (Array \<lparr>shape = [1, 2], flat = [7, 8]\<rparr>)"
    by (simp add: ex_frames_def)
  have old: "map_of ex_frames ''G/train/c1/a.npy'' = None"
    by (simp add: ex_frames_def)
  from feature_shape[OF run new old] run old show ?thesis
    by blast
qed

section \<open>Feature files that exist already\<close>

text \<open>
  Claim C1, as the code has it.  Inside the loop of \<open>frames2features\<close> a frame
  directory whose feature file exists is skipped: the loop goes on with the next
  directory on the same file system, whatever the network would compute.  No run
  changes an entry that exists, so no feature file is overwritten.  When every listed
  directory has its feature file, a run that passes the guard returns normally and
  leaves the file system as it is.  The guard itself, however, raises \<open>ValueError\<close>
  whenever \<open>sFeatureDir\<close> exists at entry: a run into the directory of an earlier run
  stops there and reuses nothing.
\<close>

theorem feature_skip:
  "(exists fs (feature_path sFeatureDir d) \<longrightarrow>
      feature_loop cnn sFrameDir sFeatureDir n fs (d # rest) =
      feature_loop cnn sFrameDir sFeatureDir n fs rest) \<and>
   (frames2features cnn sFrameDir sFeatureDir n nClasses fs = (r, fs') \<and> map_of fs p = Some x \<longrightarrow>
      map_of fs' p = Some x) \<and>
   (\<not> exists fs sFeatureDir \<and> sFrameDir \<noteq> [] \<and> map_of fs sFrameDir = Some Dir \<and>
    count_ok nClasses \<and>
    (\<forall>d \<in> set (glob_rel fs sFrameDir 3 ''*/*/*''). exists fs (feature_path sFeatureDir d)) \<longrightarrow>
      frames2features cnn sFrameDir sFeatureDir n nClasses fs = (None, fs)) \<and>
   (exists fs sFeatureDir \<longrightarrow>
      frames2features cnn sFrameDir sFeatureDir n nClasses fs = (Some ValueError, fs))"
proof (intro conjI impI)
  assume "exists fs (feature_path sFeatureDir d)"
  then show "feature_loop cnn sFrameDir sFeatureDir n fs (d # rest) =
      feature_loop cnn sFrameDir sFeatureDir n fs rest"
    by (simp add: feature_step_def)
next
  assume a: "frames2features cnn sFrameDir sFeatureDir n nClasses fs = (r, fs') \<and>
    map_of fs p = Some x"
  from frames2features_result[of cnn sFrameDir sFeatureDir n nClasses fs r fs'] a
  show "map_of fs' p = Some x"
    by (auto dest: feature_loop_mono)
next
  assume a: "\<not> exists fs sFeatureDir \<and> sFrameDir \<noteq> [] \<and> map_of fs sFrameDir = Some Dir \<and>
    count_ok nClasses \<and>
    (\<forall>d \<in> set (glob_rel fs sFrameDir 3 ''*/*/*''). exists fs (feature_path sFeatureDir d))"
  let ?ds = "glob_rel fs sFrameDir 3 ''*/*/*''"
  have "\<forall>d \<in> set ?ds. 2 \<le> length (split_on CHR ''/'' d)"
    using glob_rel_length[of _ fs sFrameDir] by simp
  with a have rc: "restrict_classes nClasses ?ds = Inr (chosen nClasses ?ds)"
    by (simp add: restrict_classes_chosen)
  have "\<forall>d \<in> set (chosen nClasses ?ds). exists fs (feature_path sFeatureDir d)"
    using a set_chosen[of nClasses ?ds] by blast
  then have "feature_loop cnn sFrameDir sFeatureDir n fs (chosen nClasses ?ds) = (None, fs)"
    by (rule feature_loop_skip_all)
  with a rc show "frames2features cnn sFrameDir sFeatureDir n nClasses fs = (None, fs)"
    by (simp add: frames2features_def)
next
  assume "exists fs sFeatureDir"
  then show "frames2features cnn sFrameDir sFeatureDir n nClasses fs = (Some ValueError, fs)"
    by (simp add: frames2features_def)
qed

text \<open>
  The four parts at concrete inputs: a loop over a directory whose feature file
  exists, the entry of a frame that a run keeps, a run with the empty feature
  directory (the feature paths are then relative to the working directory) that skips
  every video, and the guard.
\<close>

theorem feature_skip_witness:
  "exists ex_features (feature_path ''G'' ''train/c1/a'') \<and>
   feature_loop ex_cnn ''S'' ''G'' 1 ex_features [''train/c1/a''] = (None, ex_features) \<and>
   frames2features ex_cnn ''S'' ''G'' 1 None ex_frames = (None, ex_features) \<and>
   map_of ex_frames ''S/train/c1/a/frame-001.jpg'' = Some (Image 7) \<and>
   map_of ex_features ''S/train/c1/a/frame-001.jpg'' = Some (Image 7) \<and>
   \<not> exists ex_local [] \<and>
   frames2features ex_cnn ''S'' [] 1 None ex_local = (None, ex_local) \<and>
   exists ex_features ''G'' \<and>
   frames2features ex_cnn ''S'' ''G'' 1 None ex_features = (Some ValueError, ex_features)"
proof -
  have e1: "exists ex_features (feature_path ''G'' ''train/c1/a'')"
    by code_simp
  have run: "frames2features ex_cnn ''S'' ''G'' 1 None ex_frames = (None, ex_features)"
    by code_simp
  have old: "map_of ex_frames ''S/train/c1/a/frame-001.jpg'' = Some (Image 7)"
    by (simp add: ex_frames_def)
  have l1: "\<not> exists ex_local []" "map_of ex_local ''S'' = Some Dir" "count_ok None"
    by (simp_all add: exists_def ex_local_def ex_frames_def count_ok_def)
  have l2: "glob_rel ex_local ''S'' 3 ''*/*/*'' = [''train/c2/b'', ''train/c1/a'']"
    by code_simp
  have l3: "exists ex_local (feature_path [] ''train/c2/b'')"
    "exists ex_local (feature_path [] ''train/c1/a'')"
    by code_simp+
  have e2: "exists ex_features ''G''"
    by code_simp
  note t = feature_skip[where cnn = ex_cnn and sFrameDir = "''S''" and n = 1 and nClasses = None]
  have a: "feature_loop ex_cnn ''S'' ''G'' 1 ex_features [''train/c1/a''] = (None, ex_features)"
    using t[where fs = ex_features and sFeatureDir = "''G''" and d = "''train/c1/a''"
        and rest = "[]", THEN conjunct1, THEN mp, OF e1]
    by simp
  have b: "map_of ex_features ''S/train/c1/a/frame-001.jpg'' = Some (Image 7)"
    by (rule t[where fs = ex_frames and sFeatureDir = "''G''" and r = None
          and fs' = ex_features and p = "''S/train/c1/a/frame-001.jpg''" and x = "Image 7",
          THEN conjunct2, THEN conjunct1, THEN mp])
      (simp add: run old)
  have c: "frames2features ex_cnn ''S'' [] 1 None ex_local = (None, ex_local)"
    by (rule t[where fs = ex_local and sFeatureDir = "[]",
          THEN conjunct2, THEN conjunct2, THEN conjunct1, THEN mp])
      (simp add: l1 l2 l3)
  have d: "frames2features ex_cnn ''S'' ''G'' 1 None ex_features = (Some ValueError, ex_features)"
    by (rule t[where fs = ex_features and sFeatureDir = "''G''",
          THEN conjunct2, THEN conjunct2, THEN conjunct2, THEN mp, OF e2])
  from e1 a run old b l1(1) c e2 d show ?thesis by (intro conjI)
qed

text \<open>
  The claim as stated fails: after a first run has extracted the features of every
  video, the feature file of \<open>train/c1/a\<close> exists, and the second run does not skip
  the video and go on, it raises \<open>ValueError\<close>.
\<close>

theorem feature_rerun_raises:
  "frames2features ex_cnn ''S'' ''G'' 1 None ex_frames = (None, ex_features) \<and>
   glob_rel ex_features ''S'' 3 ''*/*/*'' = [''train/c2/b'', ''train/c1/a''] \<and>
   exists ex_features (feature_path ''G'' ''train/c2/b'') \<and>
   exists ex_features (feature_path ''G'' ''train/c1/a'') \<and>
   fst (frames2features ex_cnn ''S'' ''G'' 1 None ex_features) = Some ValueError"
  by code_simp

section \<open>The number of frames of each video\<close>



section \<open>The assertion on the number of frames\<close>




section \<open>The guard on the output directory\<close>



section \<open>The order of the frames\<close>




section \<open>What frames2features changes\<close>




section \<open>The prediction stage\<close>

text \<open>
  Claim C7.  When \<open>predict\<close> prints an accuracy, there are predicted classes and
  class names, one per row of the network's output, such that the class of every
  video is the position of the maximal probability of its row (the first one among
  equals), its name is the entry of the class table at that index, and the accuracy is
  the number of videos whose predicted name equals the label, divided by the number of
  videos; for no videos the mean is not a number.
\<close>

theorem prediction:
  assumes "predict keModel dfClass arFeatures liLabels = Inr acc"
  shows "\<exists>arPred liNames.
     length arPred = length (keModel arFeatures) \<and> length liNames = length arPred \<and>
     length liLabels = length liNames \<and>
     (\<forall>i < length arPred.
        is_argmax (keModel arFeatures ! i) (arPred ! i) \<and>
        map_of dfClass (arPred ! i) = Some (liNames ! i)) \<and>
     acc = (if liLabels = [] then NaN
            else Acc (of_nat (card {i. i < length liLabels \<and> liNames ! i = liLabels ! i}) /
                      of_nat (length liLabels)))"
proof -
  from assms obtain arPred liNames where
    p: "all_rows argmax (keModel arFeatures) = Inr arPred"
    and q: "all_rows (loc dfClass) arPred = Inr liNames"
    and l: "length liLabels = length liNames"
    and a: "acc = mean_equal liLabels liNames"
    by (auto simp: predict_def Let_def split: sum.splits if_splits)
  note P = all_rows_spec[OF p] and Q = all_rows_spec[OF q]
  have "\<forall>i < length arPred.
        is_argmax (keModel arFeatures ! i) (arPred ! i) \<and>
        map_of dfClass (arPred ! i) = Some (liNames ! i)"
    using P Q by (auto intro: argmax_spec loc_spec)
  moreover have "acc = (if liLabels = [] then NaN
            else Acc (of_nat (card {i. i < length liLabels \<and> liNames ! i = liLabels ! i}) /
                      of_nat (length liLabels)))"
    unfolding a mean_equal_def count_equal[OF l] ..
  ultimately show ?thesis using P Q l by blast
qed

text \<open>
  At the example: the classes 1 and 0 are predicted (the second row has its maximum
  twice), the names are \<open>point\<close> and \<open>wave\<close>, and one of the two labels is met.
\<close>

theorem prediction_witness:
  "predict ex_model ex_classes () [''point'', ''point''] = Inr (Acc (1 / 2)) \<and>
   (\<exists>arPred liNames.
     length arPred = length (ex_model ()) \<and> length liNames = length arPred \<and>
     length [''point'', ''point''] = length liNames \<and>
     (\<forall>i < length arPred.
        is_argmax (ex_model () ! i) (arPred ! i) \<and>
        map_of ex_classes (arPred ! i) = Some (liNames ! i)) \<and>
     Acc (1 / 2) =
       (if [''point'', ''point''] = [] then NaN
        else Acc (of_nat (card {i. i < length [''point'', ''point''] \<and>
                 liNames ! i = [''point'', ''point''] ! i}) /
                  of_nat (length [''point'', ''point'']))))"
proof -
  have run: "predict ex_model ex_classes () [''point'', ''point''] = Inr (Acc (1 / 2))"
    by (simp add: predict_def ex_model_def ex_classes_def argmax_def loc_def mean_equal_def)
  from prediction[OF run] run show ?thesis
    by (rule conjI[rotated])
qed

end
